theory Spec2Isabelle
  imports Complex_Main "HOL-Library.Monad_Syntax"
begin

section \<open>The image partitioner of imagepartitioner.py\<close>

text \<open>
  Sizes are Python tuples of unbounded integers, read through the indices 0 (width) and
  1 (height); a box is the 4-tuple (left, upper, right, lower). The generator yields
  triples (box, row, col).
\<close>

type_synonym size2 = "int \<times> int"
type_synonym box = "int \<times> int \<times> int \<times> int"
type_synonym tile = "box \<times> int \<times> int"

text \<open>
  The exceptions the generator can raise. A \<open>ValueError\<close> carries its message: the
  format string is the constructor, the two \<open>%d\<close> arguments are its fields, in the
  order of the source.
\<close>

datatype message =
    ImageWidthMustExceedBoxWidth int int
  | ImageHeightMustExceedBoxHeight int int
  | OverlapWidthMustExceedBoxWidth int int
  | OverlapHeightMustNotExceedOverlapHeight int int

datatype error = NotImplementedError | ValueError message | AssertionError

text \<open>
  The object: \<open>self.partSize\<close> and \<open>self.overlapSize\<close>. The logger only writes
  diagnostics and never changes a result, so \<open>self.log\<close> is left out.
\<close>

record ImagePartitioner =
  partSize :: size2
  overlapSize :: size2

text \<open>\<open>__init__\<close>: an absent overlap becomes (0, 0).\<close>

definition init :: "size2 \<Rightarrow> size2 option \<Rightarrow> ImagePartitioner" where
  "init pSize oSize =
     \<lparr> partSize = pSize,
       overlapSize = (case oSize of None \<Rightarrow> (0, 0) | Some s \<Rightarrow> s) \<rparr>"

text \<open>
  The two validations return \<open>Inl\<close> of the exception they raise, \<open>Inr ()\<close> when they
  fall through. The second test of the first one reads \<open>imgSize[0]\<close>, as the source does.
\<close>

definition validate_box_size_against_image_size :: "ImagePartitioner \<Rightarrow> size2 \<Rightarrow> error + unit" where
  "validate_box_size_against_image_size self imgSize =
     (if fst (partSize self) > fst imgSize
      then Inl (ValueError (ImageWidthMustExceedBoxWidth (fst imgSize) (fst (partSize self))))
      else if snd (partSize self) > fst imgSize
      then Inl (ValueError (ImageHeightMustExceedBoxHeight (snd imgSize) (snd (partSize self))))
      else Inr ())"

definition validate_overlap_size_against_box_size :: "ImagePartitioner \<Rightarrow> size2 \<Rightarrow> error + unit" where
  "validate_overlap_size_against_box_size self boxSize =
     (if fst (overlapSize self) \<ge> fst boxSize
      then Inl (ValueError (OverlapWidthMustExceedBoxWidth (fst (overlapSize self)) (fst boxSize)))
      else if snd (overlapSize self) \<ge> snd boxSize
      then Inl (ValueError (OverlapHeightMustNotExceedOverlapHeight (snd (overlapSize self)) (snd boxSize)))
      else Inr ())"

text \<open>
  A run of the generator is the list of the triples it yields and the way it ends:
  \<open>None\<close> when the loops finish, \<open>Some e\<close> when \<open>e\<close> is raised. A generator that
  never stops yielding has no run: the loops are partial functions into \<open>option\<close>,
  and \<open>None\<close> is that case.
\<close>

type_synonym run = "tile list \<times> error option"

text \<open>
  The inner \<open>while left < imageWidth\<close>. Its variables are left, right, lower and col;
  upper and row are fixed while it runs. It trims right and lower in place, checks the
  four assertions, yields, and advances left and right by the offset. The value of
  lower on exit is returned too, since the outer loop goes on from it.
\<close>

partial_function (option) inner_loop ::
  "int \<Rightarrow> int \<Rightarrow> int \<Rightarrow> int \<Rightarrow> int \<Rightarrow> int \<Rightarrow> int \<Rightarrow> int \<Rightarrow> int \<Rightarrow> (tile list \<times> error option \<times> int) option"
where
  "inner_loop imageWidth imageHeight widthOffset upper row left right lower col =
     (if left < imageWidth then
        (let right1 = (if right > imageWidth then imageWidth else right);
             lower1 = (if lower > imageHeight then imageHeight else lower)
         in if \<not> (0 \<le> left) \<or> \<not> (0 \<le> upper) \<or> \<not> (left < right1) \<or> \<not> (upper < lower1)
            then Some ([], Some AssertionError, lower1)
            else do {
              (ts, e, lower2) \<leftarrow> inner_loop imageWidth imageHeight widthOffset upper row
                                   (left + widthOffset) (right1 + widthOffset) lower1 (col + 1);
              Some (((left, upper, right1, lower1), row, col) # ts, e, lower2)
            })
      else Some ([], None, lower))"

text \<open>
  The outer \<open>while upper < imageHeight\<close>. Every row starts from left = 0,
  right = boxSize[0] and col = 0; lower is not reset, it carries the trimmed value
  of the row before, plus the offset. An exception raised in a row ends the run.
\<close>

partial_function (option) outer_loop ::
  "int \<Rightarrow> int \<Rightarrow> int \<Rightarrow> int \<Rightarrow> int \<Rightarrow> int \<Rightarrow> int \<Rightarrow> int \<Rightarrow> run option"
where
  "outer_loop imageWidth imageHeight boxWidth widthOffset heightOffset upper lower row =
     (if upper < imageHeight then
        do {
          (ts, e, lower1) \<leftarrow> inner_loop imageWidth imageHeight widthOffset upper row 0 boxWidth lower 0;
          (case e of
             Some err \<Rightarrow> Some (ts, Some err)
           | None \<Rightarrow> do {
               (ts', e') \<leftarrow> outer_loop imageWidth imageHeight boxWidth widthOffset heightOffset
                              (upper + heightOffset) (lower1 + heightOffset) (row + 1);
               Some (ts @ ts', e')
             })
        }
      else Some ([], None))"

text \<open>
  \<open>get_boxes\<close>: the overhang test, the two validations (against the object's sizes),
  then the loops on the sizes passed as arguments.
\<close>

definition get_boxes :: "ImagePartitioner \<Rightarrow> size2 \<Rightarrow> size2 \<Rightarrow> size2 \<Rightarrow> bool \<Rightarrow> run option" where
  "get_boxes self imgSize boxSize overlap overhang =
     (if overhang then Some ([], Some NotImplementedError)
      else case validate_box_size_against_image_size self imgSize of
        Inl e \<Rightarrow> Some ([], Some e)
      | Inr _ \<Rightarrow>
          (case validate_overlap_size_against_box_size self boxSize of
             Inl e \<Rightarrow> Some ([], Some e)
           | Inr _ \<Rightarrow>
               outer_loop (fst imgSize) (snd imgSize) (fst boxSize)
                 (fst boxSize - fst overlap) (snd boxSize - snd overlap)
                 0 (snd boxSize) 0))"


section \<open>The two-state algorithm of the specification\<close>

text \<open>
  The specification describes the same generator with two logical states: the nominal
  right and lower, which only grow by the offsets, and the emitted right and lower, a
  trimmed copy made for each box. Nothing is trimmed in place here, and there are no
  assertions. These definitions follow the specification's words, not the source; they
  are what the source is compared with.
\<close>

partial_function (option) two_state_row ::
  "int \<Rightarrow> int \<Rightarrow> int \<Rightarrow> int \<Rightarrow> int \<Rightarrow> int \<Rightarrow> int \<Rightarrow> int \<Rightarrow> int \<Rightarrow> tile list option"
where
  "two_state_row imageWidth imageHeight widthOffset upper lower_nominal row left right_nominal col =
     (if left < imageWidth then
        do {
          ts \<leftarrow> two_state_row imageWidth imageHeight widthOffset upper lower_nominal row
                  (left + widthOffset) (right_nominal + widthOffset) (col + 1);
          Some (((left, upper,
                  (if right_nominal > imageWidth then imageWidth else right_nominal),
                  (if lower_nominal > imageHeight then imageHeight else lower_nominal)),
                 row, col) # ts)
        }
      else Some [])"

partial_function (option) two_state_rows ::
  "int \<Rightarrow> int \<Rightarrow> int \<Rightarrow> int \<Rightarrow> int \<Rightarrow> int \<Rightarrow> int \<Rightarrow> int \<Rightarrow> tile list option"
where
  "two_state_rows imageWidth imageHeight tileWidth widthOffset heightOffset upper lower_nominal row =
     (if upper < imageHeight then
        do {
          ts \<leftarrow> two_state_row imageWidth imageHeight widthOffset upper lower_nominal row 0 tileWidth 0;
          ts' \<leftarrow> two_state_rows imageWidth imageHeight tileWidth widthOffset heightOffset
                   (upper + heightOffset) (lower_nominal + heightOffset) (row + 1);
          Some (ts @ ts')
        }
      else Some [])"

definition two_state_boxes :: "size2 \<Rightarrow> size2 \<Rightarrow> size2 \<Rightarrow> tile list option" where
  "two_state_boxes imageSize tileSize overlap =
     two_state_rows (fst imageSize) (snd imageSize) (fst tileSize)
       (fst tileSize - fst overlap) (snd tileSize - snd overlap) 0 (snd tileSize) 0"

section \<open>Predicates on runs\<close>

text \<open>
  A box lies in the image when \<open>0 \<le> left < right \<le> W\<close> and
  \<open>0 \<le> upper < lower \<le> H\<close>.
\<close>

definition box_in_image :: "size2 \<Rightarrow> box \<Rightarrow> bool" where
  "box_in_image imgSize b =
     (case b of (left, upper, right, lower) \<Rightarrow>
        0 \<le> left \<and> left < right \<and> right \<le> fst imgSize \<and>
        0 \<le> upper \<and> upper < lower \<and> lower \<le> snd imgSize)"

text \<open>The run ends in a \<open>ValueError\<close> and nothing was yielded before it.\<close>

definition raises_ValueError :: "run option \<Rightarrow> bool" where
  "raises_ValueError r =
     (case r of
        Some ([], Some (ValueError m)) \<Rightarrow> True
      | _ \<Rightarrow> False)"

text \<open>
  The data model of the specification: a size is a pair of non-negative integers.
\<close>

definition dimensions :: "size2 \<Rightarrow> bool" where
  "dimensions d = (0 \<le> fst d \<and> 0 \<le> snd d)"

text \<open>The input passes both validations of \<open>get_boxes\<close>, called on the object's own sizes.\<close>

definition accepted :: "ImagePartitioner \<Rightarrow> size2 \<Rightarrow> bool" where
  "accepted self imgSize =
     (validate_box_size_against_image_size self imgSize = Inr () \<and>
      validate_overlap_size_against_box_size self (partSize self) = Inr ())"

text \<open>
  The number of offset steps needed to reach or exceed an extent:
  \<open>ceil(extent / offset)\<close>.
\<close>

definition steps :: "int \<Rightarrow> int \<Rightarrow> nat" where
  "steps extent offset = nat \<lceil>real_of_int extent / real_of_int offset\<rceil>"

text \<open>
  The box of row \<open>r\<close> and column \<open>c\<close> in closed form, and the row-major list of all of
  them.
\<close>

definition tile_at :: "size2 \<Rightarrow> size2 \<Rightarrow> size2 \<Rightarrow> nat \<Rightarrow> nat \<Rightarrow> tile" where
  "tile_at imgSize boxSize overlap r c =
     ((int c * (fst boxSize - fst overlap),
       int r * (snd boxSize - snd overlap),
       min (int c * (fst boxSize - fst overlap) + fst boxSize) (fst imgSize),
       min (int r * (snd boxSize - snd overlap) + snd boxSize) (snd imgSize)),
      int r, int c)"

definition grid :: "size2 \<Rightarrow> size2 \<Rightarrow> size2 \<Rightarrow> tile list" where
  "grid imgSize boxSize overlap =
     concat (map (\<lambda>r. map (tile_at imgSize boxSize overlap r)
                          [0..<steps (fst imgSize) (fst boxSize - fst overlap)])
                 [0..<steps (snd imgSize) (snd boxSize - snd overlap)])"

text \<open>A pixel lies in a box; right and lower are exclusive.\<close>

definition pixel_in_box :: "int \<times> int \<Rightarrow> box \<Rightarrow> bool" where
  "pixel_in_box p b =
     (case b of (left, upper, right, lower) \<Rightarrow>
        left \<le> fst p \<and> fst p < right \<and> upper \<le> snd p \<and> snd p < lower)"

section \<open>The generator always stops when the offsets are positive\<close>

lemma inner_loop_total:
  assumes wo: "0 < wo"
  shows "\<exists>ts e lo. inner_loop W H wo upper row left right lower col = Some (ts, e, lo)
           \<and> (e = None \<or> e = Some AssertionError)
           \<and> (\<forall>t\<in>set ts. box_in_image (W, H) (fst t))"
proof (induction "nat (W - left)" arbitrary: left right lower col rule: less_induct)
  case less
  show ?case
  proof (cases "left < W")
    case False
    then show ?thesis by (subst inner_loop.simps) simp
  next
    case True
    define right1 where "right1 = (if right > W then W else right)"
    define lower1 where "lower1 = (if lower > H then H else lower)"
    show ?thesis
    proof (cases "0 \<le> left \<and> 0 \<le> upper \<and> left < right1 \<and> upper < lower1")
      case False
      then show ?thesis using True
        by (subst inner_loop.simps) (auto simp: right1_def lower1_def Let_def)
    next
      case ok: True
      have "nat (W - (left + wo)) < nat (W - left)" using True wo by simp
      from less[OF this, of "right1 + wo" lower1 "col + 1"]
      obtain ts e lo where
        rec: "inner_loop W H wo upper row (left + wo) (right1 + wo) lower1 (col + 1) = Some (ts, e, lo)"
        and e: "e = None \<or> e = Some AssertionError"
        and ts: "\<forall>t\<in>set ts. box_in_image (W, H) (fst t)" by blast
      have b: "box_in_image (W, H) (left, upper, right1, lower1)"
        using ok True by (simp add: box_in_image_def right1_def lower1_def)
      have "inner_loop W H wo upper row left right lower col
              = Some (((left, upper, right1, lower1), row, col) # ts, e, lo)"
        using True ok rec by (subst inner_loop.simps) (simp add: right1_def lower1_def Let_def)
      then show ?thesis using e ts b by simp
    qed
  qed
qed

lemma outer_loop_total:
  assumes wo: "0 < wo" and ho: "0 < ho"
  shows "\<exists>ts e. outer_loop W H bw wo ho upper lower row = Some (ts, e)
           \<and> (e = None \<or> e = Some AssertionError)
           \<and> (\<forall>t\<in>set ts. box_in_image (W, H) (fst t))"
proof (induction "nat (H - upper)" arbitrary: upper lower row rule: less_induct)
  case less
  show ?case
  proof (cases "upper < H")
    case False
    then show ?thesis by (subst outer_loop.simps) simp
  next
    case True
    from inner_loop_total[OF wo, of W H upper row 0 bw lower 0]
    obtain ts e lo where
      inner: "inner_loop W H wo upper row 0 bw lower 0 = Some (ts, e, lo)"
      and e: "e = None \<or> e = Some AssertionError"
      and ts: "\<forall>t\<in>set ts. box_in_image (W, H) (fst t)" by blast
    show ?thesis
    proof (cases e)
      case (Some err)
      then have "outer_loop W H bw wo ho upper lower row = Some (ts, Some AssertionError)"
        using True inner e by (subst outer_loop.simps) simp
      then show ?thesis using ts by simp
    next
      case None
      have "nat (H - (upper + ho)) < nat (H - upper)" using True ho by simp
      from less[OF this, of "lo + ho" "row + 1"]
      obtain ts' e' where
        rec: "outer_loop W H bw wo ho (upper + ho) (lo + ho) (row + 1) = Some (ts', e')"
        and e': "e' = None \<or> e' = Some AssertionError"
        and ts': "\<forall>t\<in>set ts'. box_in_image (W, H) (fst t)" by blast
      have "outer_loop W H bw wo ho upper lower row = Some (ts @ ts', e')"
        using True inner None rec by (subst outer_loop.simps) simp
      then show ?thesis using e' ts ts' by auto
    qed
  qed
qed

lemmas validation_defs =
  validate_box_size_against_image_size_def validate_overlap_size_against_box_size_def

lemmas run_defs = get_boxes_def validation_defs outer_loop.simps inner_loop.simps

section \<open>The run in closed form\<close>

text \<open>
  With positive offsets and a tile of at least 1 by 1, the destructive trimming of
  right and lower gives, at column \<open>c\<close> and row \<open>r\<close>, the minimum of the nominal edge and
  the image edge: once an edge has been trimmed, adding the offset puts it past the
  image again and it is trimmed again.
\<close>

lemma less_steps_iff:
  assumes "0 < offset"
  shows "k < steps extent offset \<longleftrightarrow> int k * offset < extent"
proof -
  have "k < steps extent offset \<longleftrightarrow> int k < \<lceil>real_of_int extent / real_of_int offset\<rceil>"
    unfolding steps_def by linarith
  also have "\<dots> \<longleftrightarrow> real_of_int (int k) < real_of_int extent / real_of_int offset"
    by (rule less_ceiling_iff)
  also have "\<dots> \<longleftrightarrow> real_of_int (int k) * real_of_int offset < real_of_int extent"
    using assms by (simp add: pos_less_divide_eq)
  also have "\<dots> \<longleftrightarrow> int k * offset < extent"
    by (metis of_int_less_iff of_int_mult)
  finally show ?thesis .
qed

lemma inner_loop_row:
  assumes wo: "0 < wo" and bw: "0 < bw" and up: "0 \<le> upper" and upH: "upper < H"
    and upl: "upper < lower"
    and rel: "min right W = min (int c * wo + bw) W"
  shows "inner_loop W H wo upper row (int c * wo) right lower (int c)
           = Some (map (\<lambda>k. ((int k * wo, upper, min (int k * wo + bw) W, min lower H), row, int k))
                     [c..<steps W wo],
                   None,
                   if c < steps W wo then min lower H else lower)"
  using upl rel
proof (induction "steps W wo - c" arbitrary: c right lower rule: less_induct)
  case less
  show ?case
  proof (cases "c < steps W wo")
    case False
    then have "\<not> int c * wo < W" using less_steps_iff[OF wo] by simp
    then show ?thesis using False by (subst inner_loop.simps) simp
  next
    case True
    then have lt: "int c * wo < W" using less_steps_iff[OF wo] by simp
    define right1 where "right1 = (if right > W then W else right)"
    define lower1 where "lower1 = (if lower > H then H else lower)"
    have r1: "right1 = min (int c * wo + bw) W" using less.prems(2) by (simp add: right1_def min_def split: if_splits)
    have l1: "lower1 = min lower H" by (simp add: lower1_def min_def)
    have ok: "0 \<le> int c * wo" "int c * wo < right1" "upper < lower1"
      using wo bw lt less.prems(1) upH by (simp_all add: r1 l1)
    have rel': "min (right1 + wo) W = min (int (Suc c) * wo + bw) W"
      using wo by (simp add: r1 min_def algebra_simps)
    have m: "steps W wo - Suc c < steps W wo - c" using True by simp
    have rec: "inner_loop W H wo upper row (int (Suc c) * wo) (right1 + wo) lower1 (int (Suc c))
           = Some (map (\<lambda>k. ((int k * wo, upper, min (int k * wo + bw) W, min lower1 H), row, int k))
                     [Suc c..<steps W wo],
                   None,
                   if Suc c < steps W wo then min lower1 H else lower1)"
      by (rule less.hyps[OF m _ rel']) (use ok in simp)
    have eq: "int c * wo + wo = int (Suc c) * wo" "int c + 1 = int (Suc c)"
      by (simp_all add: algebra_simps)
    have "inner_loop W H wo upper row (int c * wo) right lower (int c)
            = Some (((int c * wo, upper, right1, lower1), row, int c)
                      # map (\<lambda>k. ((int k * wo, upper, min (int k * wo + bw) W, min lower1 H), row, int k))
                          [Suc c..<steps W wo],
                    None, if Suc c < steps W wo then min lower1 H else lower1)"
      apply (subst inner_loop.simps)
      using lt ok up rec unfolding eq right1_def[symmetric] lower1_def[symmetric]
      apply (simp add: Let_def)
      done
    then show ?thesis using True by (simp add: upt_conv_Cons r1 l1)
  qed
qed

lemma outer_loop_rows:
  assumes wo: "0 < wo" and ho: "0 < ho" and bw: "0 < bw" and W: "0 < W"
    and upl: "int r * ho < lower"
    and rel: "min lower H = min (int r * ho + bh) H"
  shows "outer_loop W H bw wo ho (int r * ho) lower (int r)
           = Some (concat (map (\<lambda>r'. map (\<lambda>k. ((int k * wo, int r' * ho, min (int k * wo + bw) W,
                                                   min (int r' * ho + bh) H), int r', int k))
                                          [0..<steps W wo])
                               [r..<steps H ho]),
                   None)"
  using upl rel
proof (induction "steps H ho - r" arbitrary: r lower rule: less_induct)
  case less
  show ?case
  proof (cases "r < steps H ho")
    case False
    then have "\<not> int r * ho < H" using less_steps_iff[OF ho] by simp
    then show ?thesis using False by (subst outer_loop.simps) simp
  next
    case True
    then have lt: "int r * ho < H" using less_steps_iff[OF ho] by simp
    have cols: "0 < steps W wo" using less_steps_iff[OF wo, of 0 W] W by simp
    have up: "0 \<le> int r * ho" using ho by simp
    have "inner_loop W H wo (int r * ho) (int r) (int 0 * wo) bw lower (int 0)
           = Some (map (\<lambda>k. ((int k * wo, int r * ho, min (int k * wo + bw) W, min lower H), int r, int k))
                     [0..<steps W wo],
                   None,
                   if 0 < steps W wo then min lower H else lower)"
      by (rule inner_loop_row[OF wo bw up lt less.prems(1)]) simp
    then have inner: "inner_loop W H wo (int r * ho) (int r) 0 bw lower 0
           = Some (map (\<lambda>k. ((int k * wo, int r * ho, min (int k * wo + bw) W, min (int r * ho + bh) H), int r, int k))
                     [0..<steps W wo],
                   None, min lower H)"
      using cols less.prems(2) by simp
    have upl': "int (Suc r) * ho < min lower H + ho"
      using lt less.prems(1) by (simp add: algebra_simps)
    have rel': "min (min lower H + ho) H = min (int (Suc r) * ho + bh) H"
      using ho less.prems(2) by (simp add: min_def algebra_simps split: if_splits)
    have m: "steps H ho - Suc r < steps H ho - r" using True by simp
    have rec: "outer_loop W H bw wo ho (int (Suc r) * ho) (min lower H + ho) (int (Suc r))
           = Some (concat (map (\<lambda>r'. map (\<lambda>k. ((int k * wo, int r' * ho, min (int k * wo + bw) W,
                                                   min (int r' * ho + bh) H), int r', int k))
                                          [0..<steps W wo])
                               [Suc r..<steps H ho]),
                   None)"
      by (rule less.hyps[OF m upl' rel'])
    have eq: "int r * ho + ho = int (Suc r) * ho" "int r + 1 = int (Suc r)"
      by (simp_all add: algebra_simps)
    show ?thesis
      apply (subst outer_loop.simps)
      using lt inner rec True unfolding eq
      apply (simp add: upt_conv_Cons)
      done
  qed
qed

lemma accepted_iff:
  "accepted self imgSize \<longleftrightarrow>
     fst (partSize self) \<le> fst imgSize \<and> snd (partSize self) \<le> fst imgSize \<and>
     fst (overlapSize self) < fst (partSize self) \<and> snd (overlapSize self) < snd (partSize self)"
  by (auto simp: accepted_def validation_defs)

lemma get_boxes_accepted:
  assumes "accepted self imgSize"
  shows "get_boxes self imgSize (partSize self) (overlapSize self) False
           = outer_loop (fst imgSize) (snd imgSize) (fst (partSize self))
               (fst (partSize self) - fst (overlapSize self))
               (snd (partSize self) - snd (overlapSize self)) 0 (snd (partSize self)) 0"
  using assms by (simp add: accepted_def get_boxes_def)

lemma get_boxes_grid:
  assumes acc: "accepted self imgSize"
    and bw: "0 < fst (partSize self)" and bh: "0 < snd (partSize self)"
  shows "get_boxes self imgSize (partSize self) (overlapSize self) False
           = Some (grid imgSize (partSize self) (overlapSize self), None)"
proof -
  have wo: "0 < fst (partSize self) - fst (overlapSize self)"
    and ho: "0 < snd (partSize self) - snd (overlapSize self)"
    and W: "0 < fst imgSize"
    using acc bw by (simp_all add: accepted_iff)
  have "outer_loop (fst imgSize) (snd imgSize) (fst (partSize self))
               (fst (partSize self) - fst (overlapSize self))
               (snd (partSize self) - snd (overlapSize self))
               (int 0 * (snd (partSize self) - snd (overlapSize self))) (snd (partSize self)) (int 0)
          = Some (grid imgSize (partSize self) (overlapSize self), None)"
    unfolding grid_def tile_at_def
    by (rule outer_loop_rows[OF wo ho bw W]) (use bh in simp_all)
  then show ?thesis using get_boxes_accepted[OF acc] by simp
qed

lemma two_state_row_tiles:
  assumes wo: "0 < wo"
  shows "two_state_row W H wo upper lower row (int c * wo) (int c * wo + bw) (int c)
           = Some (map (\<lambda>k. ((int k * wo, upper, min (int k * wo + bw) W, min lower H), row, int k))
                     [c..<steps W wo])"
proof (induction "steps W wo - c" arbitrary: c rule: less_induct)
  case less
  show ?case
  proof (cases "c < steps W wo")
    case False
    then have "\<not> int c * wo < W" using less_steps_iff[OF wo] by simp
    then show ?thesis using False by (subst two_state_row.simps) simp
  next
    case True
    then have lt: "int c * wo < W" using less_steps_iff[OF wo] by simp
    have m: "steps W wo - Suc c < steps W wo - c" using True by simp
    have eq: "int c * wo + wo = int (Suc c) * wo" "int c + 1 = int (Suc c)"
      "int c * wo + bw + wo = int (Suc c) * wo + bw"
      by (simp_all add: algebra_simps)
    show ?thesis
      apply (subst two_state_row.simps)
      using lt less.hyps[OF m] True unfolding eq
      apply (simp add: upt_conv_Cons min_def)
      done
  qed
qed

lemma two_state_rows_tiles:
  assumes wo: "0 < wo" and ho: "0 < ho"
  shows "two_state_rows W H bw wo ho (int r * ho) (int r * ho + bh) (int r)
           = Some (concat (map (\<lambda>r'. map (\<lambda>k. ((int k * wo, int r' * ho, min (int k * wo + bw) W,
                                                   min (int r' * ho + bh) H), int r', int k))
                                          [0..<steps W wo])
                               [r..<steps H ho]))"
proof (induction "steps H ho - r" arbitrary: r rule: less_induct)
  case less
  show ?case
  proof (cases "r < steps H ho")
    case False
    then have "\<not> int r * ho < H" using less_steps_iff[OF ho] by simp
    then show ?thesis using False by (subst two_state_rows.simps) simp
  next
    case True
    then have lt: "int r * ho < H" using less_steps_iff[OF ho] by simp
    have m: "steps H ho - Suc r < steps H ho - r" using True by simp
    have eq: "int r * ho + ho = int (Suc r) * ho" "int r + 1 = int (Suc r)"
      "int r * ho + bh + ho = int (Suc r) * ho + bh"
      by (simp_all add: algebra_simps)
    have row: "two_state_row W H wo (int r * ho) (int r * ho + bh) (int r) 0 bw 0
           = Some (map (\<lambda>k. ((int k * wo, int r * ho, min (int k * wo + bw) W, min (int r * ho + bh) H), int r, int k))
                     [0..<steps W wo])"
      using two_state_row_tiles[OF wo, of W H "int r * ho" "int r * ho + bh" "int r" 0 bw] by simp
    show ?thesis
      apply (subst two_state_rows.simps)
      using lt row less.hyps[OF m] True unfolding eq
      apply (simp add: upt_conv_Cons)
      done
  qed
qed

lemma two_state_boxes_grid:
  assumes "fst overlap < fst tileSize" and "snd overlap < snd tileSize"
  shows "two_state_boxes imageSize tileSize overlap = Some (grid imageSize tileSize overlap)"
proof -
  have wo: "0 < fst tileSize - fst overlap" and ho: "0 < snd tileSize - snd overlap"
    using assms by simp_all
  show ?thesis
    unfolding two_state_boxes_def grid_def tile_at_def
    using two_state_rows_tiles[OF wo ho, of "fst imageSize" "snd imageSize" "fst tileSize" 0 "snd tileSize"]
    by simp
qed

text \<open>The closed-form list has one entry for each row and column, found by division.\<close>

lemma length_grid:
  "length (grid imgSize boxSize overlap)
     = steps (snd imgSize) (snd boxSize - snd overlap) * steps (fst imgSize) (fst boxSize - fst overlap)"
  by (simp add: grid_def length_concat comp_def sum_list_triv)

lemma nth_rows:
  "i < m * n \<Longrightarrow> concat (map (\<lambda>r. map (f r) [0..<n]) [0..<m]) ! i = f (i div n) (i mod n)"
proof (induction m)
  case 0
  then show ?case by simp
next
  case (Suc m)
  have len: "length (concat (map (\<lambda>r. map (f r) [0..<n]) [0..<m])) = m * n"
    by (simp add: length_concat comp_def sum_list_triv)
  show ?case
  proof (cases "i < m * n")
    case True
    then show ?thesis using Suc.IH by (simp add: nth_append len)
  next
    case False
    then have ge: "m * n \<le> i" by simp
    have lt: "i - m * n < n" using Suc.prems ge by simp
    have "i = m * n + (i - m * n)" using ge by simp
    then have "i div n = m \<and> i mod n = i - m * n"
      using lt by (metis div_mult_self3 mod_mult_self3 div_less mod_less add.right_neutral less_nat_zero_code)
    then show ?thesis using False lt by (simp add: nth_append len)
  qed
qed

lemma nth_grid:
  assumes "i < length (grid imgSize boxSize overlap)"
  shows "grid imgSize boxSize overlap ! i
           = tile_at imgSize boxSize overlap
               (i div steps (fst imgSize) (fst boxSize - fst overlap))
               (i mod steps (fst imgSize) (fst boxSize - fst overlap))"
  using assms unfolding length_grid unfolding grid_def by (rule nth_rows)

text \<open>
  An accepted input whose tile is not at least 1 by 1 (its overlap is then negative)
  yields no box: either a loop has nothing to do or the first assertion fails.
\<close>

lemma inner_loop_narrow_tile:
  assumes "bw \<le> 0"
  shows "\<exists>e lo. inner_loop W H wo upper row 0 bw lower 0 = Some ([], e, lo)"
  using assms by (subst inner_loop.simps) (simp add: Let_def)

lemma outer_loop_narrow_tile:
  assumes bw: "bw \<le> 0" and ho: "0 < ho"
  shows "\<exists>e. outer_loop W H bw wo ho upper lower row = Some ([], e)"
proof (induction "nat (H - upper)" arbitrary: upper lower row rule: less_induct)
  case less
  show ?case
  proof (cases "upper < H")
    case False
    then show ?thesis by (subst outer_loop.simps) simp
  next
    case True
    from inner_loop_narrow_tile[OF bw, of W H wo upper row lower]
    obtain e lo where inner: "inner_loop W H wo upper row 0 bw lower 0 = Some ([], e, lo)" by blast
    have "nat (H - (upper + ho)) < nat (H - upper)" using True ho by simp
    from less[OF this, of "lo + ho" "row + 1"]
    obtain e' where rec: "outer_loop W H bw wo ho (upper + ho) (lo + ho) (row + 1) = Some ([], e')"
      by blast
    show ?thesis
      using True inner rec by (subst outer_loop.simps) (simp split: option.splits)
  qed
qed

lemma outer_loop_flat_tile:
  assumes bh: "bh \<le> 0" and W: "0 < W"
  shows "\<exists>e. outer_loop W H bw wo ho 0 bh 0 = Some ([], e)"
proof (cases "0 < H")
  case False
  then show ?thesis by (subst outer_loop.simps) simp
next
  case True
  have "inner_loop W H wo 0 0 0 bw bh 0 = Some ([], Some AssertionError, bh)"
    using bh W True by (subst inner_loop.simps) (simp add: Let_def)
  then show ?thesis using True by (subst outer_loop.simps) simp
qed

lemma get_boxes_no_box:
  assumes acc: "accepted self imgSize"
    and deg: "\<not> (0 < fst (partSize self) \<and> 0 < snd (partSize self))"
  shows "\<exists>e. get_boxes self imgSize (partSize self) (overlapSize self) False = Some ([], e)"
proof (cases "0 < fst (partSize self)")
  case False
  have ho: "0 < snd (partSize self) - snd (overlapSize self)" using acc by (simp add: accepted_iff)
  show ?thesis
    unfolding get_boxes_accepted[OF acc]
    by (rule outer_loop_narrow_tile[OF _ ho]) (use False in simp)
next
  case True
  then have W: "0 < fst imgSize" and bh: "snd (partSize self) \<le> 0"
    using acc deg by (simp_all add: accepted_iff)
  show ?thesis
    unfolding get_boxes_accepted[OF acc] by (rule outer_loop_flat_tile[OF bh W])
qed

lemma positive_tile:
  assumes "accepted self imgSize" and "dimensions (overlapSize self)"
  shows "0 < fst (partSize self)" and "0 < snd (partSize self)"
  using assms by (simp_all add: accepted_iff dimensions_def)

lemma int_steps:
  assumes "0 \<le> extent" and "0 < offset"
  shows "int (steps extent offset) = \<lceil>real_of_int extent / real_of_int offset\<rceil>"
proof -
  have "0 \<le> real_of_int extent / real_of_int offset" using assms by simp
  then have "0 \<le> \<lceil>real_of_int extent / real_of_int offset\<rceil>" by linarith
  then show ?thesis by (simp add: steps_def)
qed

lemma map_snd_grid:
  "map snd (grid imgSize boxSize overlap)
     = map (\<lambda>(r, c). (int r, int c))
         (List.product [0..<steps (snd imgSize) (snd boxSize - snd overlap)]
                       [0..<steps (fst imgSize) (fst boxSize - fst overlap)])"
  by (simp add: grid_def product_concat_map map_concat comp_def tile_at_def)

lemma distinct_map_snd_grid: "distinct (map snd (grid imgSize boxSize overlap))"
  unfolding map_snd_grid
  by (rule distinct_map[THEN iffD2]) (auto simp: distinct_product inj_on_def)

lemma same_row_next_column:
  assumes "Suc i div n = i div n"
  shows "Suc i mod n = Suc (i mod n)"
  using assms by (metis div_Suc mod_Suc n_not_Suc_n)

text \<open>
  On an accepted input with a non-negative overlap the yielded boxes cover the image
  exactly: every pixel of the image is in some box, and no box has a pixel outside.
\<close>

lemma set_grid:
  "set (grid imgSize boxSize overlap)
     = {tile_at imgSize boxSize overlap r c | r c.
          r < steps (snd imgSize) (snd boxSize - snd overlap)
        \<and> c < steps (fst imgSize) (fst boxSize - fst overlap)}"
  by (auto simp: grid_def) blast

lemma step_below:
  assumes "0 < offset" and "0 \<le> x" and "x < extent"
  shows "nat (x div offset) < steps extent offset"
    and "int (nat (x div offset)) * offset \<le> x"
    and "x < int (nat (x div offset)) * offset + offset"
proof -
  have nn: "0 \<le> x div offset" using assms by (simp add: pos_imp_zdiv_nonneg_iff)
  have split: "x = x div offset * offset + x mod offset" by simp
  have rem: "0 \<le> x mod offset" "x mod offset < offset" using assms(1) by simp_all
  have le: "x div offset * offset \<le> x" using split rem(1) by linarith
  show "int (nat (x div offset)) * offset \<le> x" using nn le by simp
  then have "int (nat (x div offset)) * offset < extent" using assms(3) by simp
  then show "nat (x div offset) < steps extent offset" using less_steps_iff[OF assms(1)] by simp
  have "x < x div offset * offset + offset" using split rem(2) by linarith
  then show "x < int (nat (x div offset)) * offset + offset" using nn by simp
qed

lemma accepted_run_covers_image:
  assumes acc: "accepted self imgSize" and dim: "dimensions (overlapSize self)"
  shows "\<exists>ts. get_boxes self imgSize (partSize self) (overlapSize self) False = Some (ts, None)
           \<and> (\<forall>x y. 0 \<le> x \<and> x < fst imgSize \<and> 0 \<le> y \<and> y < snd imgSize
                  \<longrightarrow> (\<exists>t\<in>set ts. pixel_in_box (x, y) (fst t)))
           \<and> (\<forall>t\<in>set ts. \<forall>x y. pixel_in_box (x, y) (fst t)
                  \<longrightarrow> 0 \<le> x \<and> x < fst imgSize \<and> 0 \<le> y \<and> y < snd imgSize)"
proof -
  define wo where "wo = fst (partSize self) - fst (overlapSize self)"
  define ho where "ho = snd (partSize self) - snd (overlapSize self)"
  have wo: "0 < wo" and ho: "0 < ho" using acc by (simp_all add: accepted_iff wo_def ho_def)
  have wide: "wo \<le> fst (partSize self)" and tall: "ho \<le> snd (partSize self)"
    using dim by (simp_all add: dimensions_def wo_def ho_def)
  have run: "get_boxes self imgSize (partSize self) (overlapSize self) False
               = Some (grid imgSize (partSize self) (overlapSize self), None)"
    by (rule get_boxes_grid[OF acc positive_tile[OF acc dim]])
  have cover: "\<exists>t\<in>set (grid imgSize (partSize self) (overlapSize self)). pixel_in_box (x, y) (fst t)"
    if "0 \<le> x" "x < fst imgSize" "0 \<le> y" "y < snd imgSize" for x y
  proof -
    define c where "c = nat (x div wo)"
    define r where "r = nat (y div ho)"
    note cx = step_below[OF wo that(1,2), folded c_def]
    note ry = step_below[OF ho that(3,4), folded r_def]
    have "tile_at imgSize (partSize self) (overlapSize self) r c
            \<in> set (grid imgSize (partSize self) (overlapSize self))"
      unfolding set_grid using cx(1) ry(1) by (auto simp: wo_def ho_def)
    moreover have "pixel_in_box (x, y) (fst (tile_at imgSize (partSize self) (overlapSize self) r c))"
      using cx(2,3) ry(2,3) wide tall that(2,4)
      by (simp add: pixel_in_box_def tile_at_def wo_def[symmetric] ho_def[symmetric])
    ultimately show ?thesis by blast
  qed
  have inside: "0 \<le> x \<and> x < fst imgSize \<and> 0 \<le> y \<and> y < snd imgSize"
    if "t \<in> set (grid imgSize (partSize self) (overlapSize self))" "pixel_in_box (x, y) (fst t)" for t x y
  proof -
    from that(1) obtain r c where t: "t = tile_at imgSize (partSize self) (overlapSize self) r c"
      unfolding set_grid by blast
    have "0 \<le> int c * wo" "0 \<le> int r * ho" using wo ho by simp_all
    then show ?thesis using that(2) unfolding t
      by (simp add: pixel_in_box_def tile_at_def wo_def[symmetric] ho_def[symmetric])
  qed
  show ?thesis using run cover inside by blast
qed

section \<open>Errors\<close>

text \<open>
  C8. Whatever the other arguments are, \<open>get_boxes\<close> called with a true overhang raises
  \<open>NotImplementedError\<close> before it yields anything: the test is the first statement
  of the body, so a run that gets past it has a false (or absent) overhang.
\<close>

theorem overhang_not_implemented:
  "get_boxes self imgSize boxSize overlap True = Some ([], Some NotImplementedError)"
  by (simp add: get_boxes_def)

theorem overhang_not_implemented_witness:
  "get_boxes \<lparr>partSize = (256, 256), overlapSize = (0, 0)\<rparr> (500, 300) (256, 256) (0, 0) True
     = Some ([], Some NotImplementedError)"
  by (rule overhang_not_implemented)

text \<open>
  C7, as amended. When the overhang is false and the object's overlap is not strictly
  smaller than the tile size in width or in height, \<open>get_boxes\<close> raises a
  \<open>ValueError\<close> and yields no box before it.
\<close>

theorem overlap_not_smaller_rejected:
  assumes "\<not> overhang"
    and "fst (overlapSize self) \<ge> fst boxSize \<or> snd (overlapSize self) \<ge> snd boxSize"
  shows "raises_ValueError (get_boxes self imgSize boxSize overlap overhang)"
  using assms by (auto simp: get_boxes_def validation_defs raises_ValueError_def)

theorem overlap_not_smaller_rejected_witness:
  "\<not> False \<and> fst (overlapSize \<lparr>partSize = (128, 128), overlapSize = (128, 0)\<rparr>) \<ge> fst ((128, 128) :: size2)
   \<and> raises_ValueError
        (get_boxes \<lparr>partSize = (128, 128), overlapSize = (128, 0)\<rparr> (500, 300) (128, 128) (128, 0) False)"
  using overlap_not_smaller_rejected
    [where overhang = False and self = "\<lparr>partSize = (128, 128), overlapSize = (128, 0)\<rparr>"
       and boxSize = "(128, 128)" and imgSize = "(500, 300)" and overlap = "(128, 0)"]
  by simp

text \<open>
  C7 as stated fails when the overhang is true: with overlap width 5 on tile width 5 the
  call raises \<open>NotImplementedError\<close>, not a \<open>ValueError\<close>.
\<close>

theorem overlap_not_smaller_with_overhang_counterexample:
  "fst (overlapSize \<lparr>partSize = (5, 5), overlapSize = (5, 0)\<rparr>) \<ge> fst ((5, 5) :: size2)
   \<and> \<not> raises_ValueError
        (get_boxes \<lparr>partSize = (5, 5), overlapSize = (5, 0)\<rparr> (10, 10) (5, 5) (5, 0) True)
   \<and> get_boxes \<lparr>partSize = (5, 5), overlapSize = (5, 0)\<rparr> (10, 10) (5, 5) (5, 0) True
       = Some ([], Some NotImplementedError)"
  by (simp add: get_boxes_def raises_ValueError_def)

text \<open>
  C3, as amended. With a false overhang, a tile no wider than the image and an overlap
  strictly smaller than the tile in both dimensions, \<open>get_boxes\<close> raises a
  \<open>ValueError\<close> exactly when the tile height exceeds the image width.
\<close>

theorem tile_height_checked_against_image_width:
  assumes "fst (partSize self) \<le> fst imgSize"
    and "fst (overlapSize self) < fst (partSize self)"
    and "snd (overlapSize self) < snd (partSize self)"
  shows "raises_ValueError (get_boxes self imgSize (partSize self) (overlapSize self) False)
           \<longleftrightarrow> snd (partSize self) > fst imgSize"
proof (cases "snd (partSize self) > fst imgSize")
  case True
  then show ?thesis using assms
    by (simp add: get_boxes_def validation_defs raises_ValueError_def)
next
  case False
  have wo: "0 < fst (partSize self) - fst (overlapSize self)" using assms by simp
  have ho: "0 < snd (partSize self) - snd (overlapSize self)" using assms by simp
  from outer_loop_total[OF wo ho, of "fst imgSize" "snd imgSize" "fst (partSize self)" 0 "snd (partSize self)" 0]
  obtain ts e where
    "outer_loop (fst imgSize) (snd imgSize) (fst (partSize self))
       (fst (partSize self) - fst (overlapSize self)) (snd (partSize self) - snd (overlapSize self))
       0 (snd (partSize self)) 0 = Some (ts, e)"
    and "e = None \<or> e = Some AssertionError" by blast
  then have "\<not> raises_ValueError (get_boxes self imgSize (partSize self) (overlapSize self) False)"
    using False assms by (auto simp: get_boxes_def validation_defs raises_ValueError_def split: list.splits)
  then show ?thesis using False by simp
qed

theorem tile_height_checked_against_image_width_witness:
  "fst (partSize \<lparr>partSize = (5, 50), overlapSize = (0, 0)\<rparr>) \<le> fst ((5, 100) :: size2)
   \<and> raises_ValueError
        (get_boxes \<lparr>partSize = (5, 50), overlapSize = (0, 0)\<rparr> (5, 100) (5, 50) (0, 0) False)
   \<and> snd (partSize \<lparr>partSize = (5, 50), overlapSize = (0, 0)\<rparr>) > fst ((5, 100) :: size2)"
  using tile_height_checked_against_image_width
    [where self = "\<lparr>partSize = (5, 50), overlapSize = (0, 0)\<rparr>" and imgSize = "(5, 100)"]
  by simp

text \<open>
  C3 as stated fails when the overlap is rejected: tile (5, 5) on image (10, 10) has
  its width and its height within the image width, and the call still raises a
  \<open>ValueError\<close>, for the overlap width 5.
\<close>

theorem tile_height_not_only_cause_counterexample:
  "fst ((5, 5) :: size2) \<le> fst ((10, 10) :: size2) \<and> \<not> snd ((5, 5) :: size2) > fst ((10, 10) :: size2)
   \<and> raises_ValueError
        (get_boxes \<lparr>partSize = (5, 5), overlapSize = (5, 0)\<rparr> (10, 10) (5, 5) (5, 0) False)"
  by (simp add: get_boxes_def validation_defs raises_ValueError_def)

text \<open>
  C2, at the failing input. The tile height 200 exceeds the image height 100, the
  validation compares it with the image width 500 and lets it through, and three boxes
  are yielded.
\<close>

theorem tall_tile_accepted:
  "snd ((200, 200) :: size2) > snd ((500, 100) :: size2)
   \<and> get_boxes \<lparr>partSize = (200, 200), overlapSize = (0, 0)\<rparr> (500, 100) (200, 200) (0, 0) False
       = Some ([((0, 0, 200, 100), 0, 0), ((200, 0, 400, 100), 0, 1), ((400, 0, 500, 100), 0, 2)], None)"
  by (simp add: run_defs)

section \<open>Boxes\<close>

text \<open>
  C4. For every input the two validations accept, the generator stops, and every box
  it has yielded satisfies \<open>0 \<le> left < right \<le> W\<close> and \<open>0 \<le> upper < lower \<le> H\<close>.
\<close>

theorem emitted_boxes_in_image:
  assumes "accepted self imgSize"
  shows "\<exists>ts e. get_boxes self imgSize (partSize self) (overlapSize self) overhang = Some (ts, e)
           \<and> (\<forall>t\<in>set ts. box_in_image imgSize (fst t))"
proof (cases overhang)
  case True
  then show ?thesis by (simp add: get_boxes_def)
next
  case False
  have wo: "0 < fst (partSize self) - fst (overlapSize self)"
    and ho: "0 < snd (partSize self) - snd (overlapSize self)"
    using assms by (simp_all add: accepted_iff)
  from outer_loop_total[OF wo ho, of "fst imgSize" "snd imgSize" "fst (partSize self)" 0 "snd (partSize self)" 0]
  obtain ts e where
    "outer_loop (fst imgSize) (snd imgSize) (fst (partSize self))
       (fst (partSize self) - fst (overlapSize self)) (snd (partSize self) - snd (overlapSize self))
       0 (snd (partSize self)) 0 = Some (ts, e)"
    and "\<forall>t\<in>set ts. box_in_image imgSize (fst t)" by auto
  then show ?thesis using False get_boxes_accepted[OF assms] by simp
qed

theorem emitted_boxes_in_image_witness:
  "accepted \<lparr>partSize = (256, 256), overlapSize = (0, 0)\<rparr> (500, 300)
   \<and> (\<exists>ts e. get_boxes \<lparr>partSize = (256, 256), overlapSize = (0, 0)\<rparr> (500, 300) (256, 256) (0, 0) False
                = Some (ts, e)
        \<and> (\<forall>t\<in>set ts. box_in_image (500, 300) (fst t)))"
proof -
  have a: "accepted \<lparr>partSize = (256, 256), overlapSize = (0, 0)\<rparr> (500, 300)"
    by (simp add: accepted_iff)
  show ?thesis using a emitted_boxes_in_image[OF a, of False] by simp
qed

text \<open>
  C10. For every accepted input whose overlap is a size of the data model (non-negative),
  none of the four assertions of the loop fails: the run ends normally. The tile
  height may exceed the image height here (the validation accepts it when it is at most
  the image width); trimming lower to the image height keeps \<open>upper < lower\<close>.
\<close>

theorem assertions_never_fail:
  assumes "accepted self imgSize" and "dimensions (overlapSize self)"
  shows "\<exists>ts. get_boxes self imgSize (partSize self) (overlapSize self) False = Some (ts, None)"
  using get_boxes_grid[OF assms(1) positive_tile[OF assms]] by simp

theorem assertions_never_fail_witness:
  "accepted \<lparr>partSize = (200, 150), overlapSize = (0, 0)\<rparr> (300, 100)
   \<and> dimensions (overlapSize \<lparr>partSize = (200, 150), overlapSize = (0, 0)\<rparr>)
   \<and> snd (partSize \<lparr>partSize = (200, 150), overlapSize = (0, 0)\<rparr>) > snd ((300, 100) :: size2)
   \<and> (\<exists>ts. get_boxes \<lparr>partSize = (200, 150), overlapSize = (0, 0)\<rparr> (300, 100) (200, 150) (0, 0) False
               = Some (ts, None))"
proof -
  have a: "accepted \<lparr>partSize = (200, 150), overlapSize = (0, 0)\<rparr> (300, 100)"
    by (simp add: accepted_iff)
  have d: "dimensions (overlapSize \<lparr>partSize = (200, 150), overlapSize = (0, 0)\<rparr>)"
    by (simp add: dimensions_def)
  show ?thesis using a d assertions_never_fail[OF a d] by simp
qed

text \<open>
  C1, at the failing input. Tile (200, 256) fits in image (200, 300) in width and in
  height, the overlap is (0, 0), and the validation rejects the call because the tile
  height 256 exceeds the image width 200: no box is yielded, so nothing is covered.
\<close>

theorem tile_within_height_rejected:
  "fst ((200, 256) :: size2) \<le> fst ((200, 300) :: size2)
   \<and> snd ((200, 256) :: size2) \<le> snd ((200, 300) :: size2)
   \<and> get_boxes \<lparr>partSize = (200, 256), overlapSize = (0, 0)\<rparr> (200, 300) (200, 256) (0, 0) False
       = Some ([], Some (ValueError (ImageHeightMustExceedBoxHeight 300 256)))"
  by (simp add: get_boxes_def validation_defs)

section \<open>The grid\<close>

text \<open>
  C5. For every accepted input with non-negative image and overlap sizes, the run is
  finite and ends normally, its length is
  \<open>ceil(imageWidth / widthOffset) * ceil(imageHeight / heightOffset)\<close>, and its
  (row, col) pairs are exactly the grid of that many rows and columns, listed row by
  row, each pair once.
\<close>

theorem complete_grid_row_major:
  assumes "accepted self imgSize" and "dimensions (overlapSize self)" and "dimensions imgSize"
  shows "\<exists>ts. get_boxes self imgSize (partSize self) (overlapSize self) False = Some (ts, None)
           \<and> int (length ts)
               = \<lceil>real_of_int (fst imgSize) / real_of_int (fst (partSize self) - fst (overlapSize self))\<rceil>
                 * \<lceil>real_of_int (snd imgSize) / real_of_int (snd (partSize self) - snd (overlapSize self))\<rceil>
           \<and> map snd ts
               = concat (map (\<lambda>r. map (\<lambda>c. (int r, int c))
                                     [0..<steps (fst imgSize) (fst (partSize self) - fst (overlapSize self))])
                             [0..<steps (snd imgSize) (snd (partSize self) - snd (overlapSize self))])
           \<and> distinct (map snd ts)"
proof -
  have wo: "0 < fst (partSize self) - fst (overlapSize self)"
    and ho: "0 < snd (partSize self) - snd (overlapSize self)"
    using assms(1) by (simp_all add: accepted_iff)
  have W: "0 \<le> fst imgSize" and H: "0 \<le> snd imgSize"
    using assms(3) by (simp_all add: dimensions_def)
  have run: "get_boxes self imgSize (partSize self) (overlapSize self) False
               = Some (grid imgSize (partSize self) (overlapSize self), None)"
    by (rule get_boxes_grid[OF assms(1) positive_tile[OF assms(1,2)]])
  have len: "int (length (grid imgSize (partSize self) (overlapSize self)))
               = \<lceil>real_of_int (fst imgSize) / real_of_int (fst (partSize self) - fst (overlapSize self))\<rceil>
                 * \<lceil>real_of_int (snd imgSize) / real_of_int (snd (partSize self) - snd (overlapSize self))\<rceil>"
    unfolding length_grid of_nat_mult int_steps[OF W wo] int_steps[OF H ho] by (rule mult.commute)
  have pairs: "map snd (grid imgSize (partSize self) (overlapSize self))
               = concat (map (\<lambda>r. map (\<lambda>c. (int r, int c))
                                     [0..<steps (fst imgSize) (fst (partSize self) - fst (overlapSize self))])
                             [0..<steps (snd imgSize) (snd (partSize self) - snd (overlapSize self))])"
    by (simp add: grid_def map_concat comp_def tile_at_def)
  show ?thesis using run len pairs distinct_map_snd_grid by blast
qed

theorem complete_grid_row_major_witness:
  "accepted \<lparr>partSize = (256, 256), overlapSize = (0, 0)\<rparr> (500, 300)
   \<and> dimensions (overlapSize \<lparr>partSize = (256, 256), overlapSize = (0, 0)\<rparr>)
   \<and> dimensions (500, 300)
   \<and> get_boxes \<lparr>partSize = (256, 256), overlapSize = (0, 0)\<rparr> (500, 300) (256, 256) (0, 0) False
       = Some ([((0, 0, 256, 256), 0, 0), ((256, 0, 500, 256), 0, 1),
                ((0, 256, 256, 300), 1, 0), ((256, 256, 500, 300), 1, 1)], None)
   \<and> \<lceil>real_of_int 500 / real_of_int (256 - 0)\<rceil> * \<lceil>real_of_int 300 / real_of_int (256 - 0)\<rceil> = (4 :: int)"
proof -
  have a: "accepted \<lparr>partSize = (256, 256), overlapSize = (0, 0)\<rparr> (500, 300)"
    by (simp add: accepted_iff)
  have d: "dimensions (overlapSize \<lparr>partSize = (256, 256), overlapSize = (0, 0)\<rparr>)"
    by (simp add: dimensions_def)
  have i: "dimensions (500, 300)"
    by (simp add: dimensions_def)
  have run: "get_boxes \<lparr>partSize = (256, 256), overlapSize = (0, 0)\<rparr> (500, 300) (256, 256) (0, 0) False
       = Some ([((0, 0, 256, 256), 0, 0), ((256, 0, 500, 256), 0, 1),
                ((0, 256, 256, 300), 1, 0), ((256, 256, 500, 300), 1, 1)], None)"
    by (simp add: run_defs)
  from complete_grid_row_major[OF a d i] run
  have "\<lceil>real_of_int 500 / real_of_int (256 - 0)\<rceil> * \<lceil>real_of_int 300 / real_of_int (256 - 0)\<rceil> = (4 :: int)"
    by auto
  then show ?thesis using a d i run by blast
qed

text \<open>
  C9. In the run of an accepted input, take two boxes yielded one after the other with
  the same row index. If the first has its full tile width (it was not trimmed), the
  second starts \<open>overlapWidth\<close> pixels before the right edge of the first; and when
  the overlap is (0, 0), the second starts exactly at the right edge of the first.
\<close>

theorem adjacent_boxes_in_row:
  assumes acc: "accepted self imgSize"
    and run: "get_boxes self imgSize (partSize self) (overlapSize self) False = Some (ts, e)"
    and i: "Suc i < length ts"
    and t1: "ts ! i = ((left, upper, right, lower), row, col)"
    and t2: "ts ! Suc i = ((left', upper', right', lower'), row', col')"
    and row: "row' = row"
  shows "(right - left = fst (partSize self) \<longrightarrow> left' = right - fst (overlapSize self))
           \<and> (overlapSize self = (0, 0) \<longrightarrow> left' = right)"
proof (cases "0 < fst (partSize self) \<and> 0 < snd (partSize self)")
  case False
  from get_boxes_no_box[OF acc False] run i show ?thesis by auto
next
  case True
  define n where "n = steps (fst imgSize) (fst (partSize self) - fst (overlapSize self))"
  define wo where "wo = fst (partSize self) - fst (overlapSize self)"
  have wo: "0 < wo" using acc by (simp add: accepted_iff wo_def)
  have ts: "ts = grid imgSize (partSize self) (overlapSize self)"
    using get_boxes_grid[OF acc] True run by simp
  have i1: "i < length (grid imgSize (partSize self) (overlapSize self))"
    and i2: "Suc i < length (grid imgSize (partSize self) (overlapSize self))"
    using i ts by simp_all
  have a: "((left, upper, right, lower), row, col)
             = tile_at imgSize (partSize self) (overlapSize self) (i div n) (i mod n)"
    using nth_grid[OF i1] t1 ts by (simp add: n_def)
  have b: "((left', upper', right', lower'), row', col')
             = tile_at imgSize (partSize self) (overlapSize self) (Suc i div n) (Suc i mod n)"
    using nth_grid[OF i2] t2 ts by (simp add: n_def)
  have "Suc i div n = i div n" using a b row by (simp add: tile_at_def)
  then have next_col: "Suc i mod n = Suc (i mod n)" by (rule same_row_next_column)
  have "0 < n" using i2 unfolding length_grid n_def by (cases "steps (fst imgSize) (fst (partSize self) - fst (overlapSize self))") simp_all
  then have "Suc i mod n < n" by simp
  then have inside: "int (Suc (i mod n)) * wo < fst imgSize"
    using less_steps_iff[OF wo, of "Suc i mod n" "fst imgSize"] next_col by (simp add: n_def wo_def)
  have l: "left = int (i mod n) * wo"
    and r: "right = min (int (i mod n) * wo + fst (partSize self)) (fst imgSize)"
    using a by (simp_all add: tile_at_def wo_def)
  have l': "left' = int (i mod n) * wo + wo"
    using b next_col by (simp add: tile_at_def wo_def algebra_simps)
  have full: "right - left = fst (partSize self) \<longrightarrow> left' = right - fst (overlapSize self)"
    using l r l' by (auto simp: wo_def)
  have flush: "overlapSize self = (0, 0) \<longrightarrow> left' = right"
  proof
    assume "overlapSize self = (0, 0)"
    then have "wo = fst (partSize self)" by (simp add: wo_def)
    then show "left' = right" using l' r inside by (simp add: algebra_simps)
  qed
  show ?thesis using full flush by simp
qed

theorem adjacent_boxes_in_row_witness:
  "accepted \<lparr>partSize = (8, 4), overlapSize = (6, 0)\<rparr> (10, 4)
   \<and> get_boxes \<lparr>partSize = (8, 4), overlapSize = (6, 0)\<rparr> (10, 4) (8, 4) (6, 0) False
       = Some ([((0, 0, 8, 4), 0, 0), ((2, 0, 10, 4), 0, 1), ((4, 0, 10, 4), 0, 2),
                ((6, 0, 10, 4), 0, 3), ((8, 0, 10, 4), 0, 4)], None)
   \<and> (8 :: int) - 0 = fst (partSize \<lparr>partSize = (8, 4), overlapSize = (6, 0)\<rparr>)
   \<and> (2 :: int) = 8 - fst (overlapSize \<lparr>partSize = (8, 4), overlapSize = (6, 0)\<rparr>)"
proof -
  define ts :: "tile list" where
    "ts = [((0, 0, 8, 4), 0, 0), ((2, 0, 10, 4), 0, 1), ((4, 0, 10, 4), 0, 2),
           ((6, 0, 10, 4), 0, 3), ((8, 0, 10, 4), 0, 4)]"
  have a: "accepted \<lparr>partSize = (8, 4), overlapSize = (6, 0)\<rparr> (10, 4)"
    by (simp add: accepted_iff)
  have run: "get_boxes \<lparr>partSize = (8, 4), overlapSize = (6, 0)\<rparr>
               (10, 4) (partSize \<lparr>partSize = (8, 4), overlapSize = (6, 0)\<rparr>)
               (overlapSize \<lparr>partSize = (8, 4), overlapSize = (6, 0)\<rparr>) False
       = Some (ts, None)"
    by (simp add: run_defs ts_def)
  have i: "Suc 0 < length ts" by (simp add: ts_def)
  have t1: "ts ! 0 = ((0, 0, 8, 4), 0, 0)" by (simp add: ts_def)
  have t2: "ts ! Suc 0 = ((2, 0, 10, 4), 0, 1)" by (simp add: ts_def)
  have full: "(8 :: int) - 0 = fst (partSize \<lparr>partSize = (8, 4), overlapSize = (6, 0)\<rparr>)" by simp
  from adjacent_boxes_in_row[OF a run i t1 t2 refl] full
  have "(2 :: int) = 8 - fst (overlapSize \<lparr>partSize = (8, 4), overlapSize = (6, 0)\<rparr>)" by blast
  then show ?thesis using a run full by (simp add: ts_def)
qed

section \<open>Trimming in place against the two-state algorithm\<close>

text \<open>
  C6. For every accepted input whose overlap is non-negative, the run of \<open>get_boxes\<close>,
  which trims right and lower in place and advances the trimmed values, ends normally
  and yields the very sequence of (box, row, col) triples of the two-state algorithm,
  which advances the nominal values and trims a copy.
\<close>

theorem destructive_trimming_refines_two_state:
  assumes "accepted self imgSize" and "dimensions (overlapSize self)"
  shows "\<exists>ts. get_boxes self imgSize (partSize self) (overlapSize self) False = Some (ts, None)
              \<and> two_state_boxes imgSize (partSize self) (overlapSize self) = Some ts"
proof -
  have "two_state_boxes imgSize (partSize self) (overlapSize self)
          = Some (grid imgSize (partSize self) (overlapSize self))"
    using assms(1) by (intro two_state_boxes_grid) (simp_all add: accepted_iff)
  then show ?thesis using get_boxes_grid[OF assms(1) positive_tile[OF assms]] by simp
qed

theorem destructive_trimming_refines_two_state_witness:
  "accepted \<lparr>partSize = (8, 4), overlapSize = (6, 0)\<rparr> (10, 4)
   \<and> dimensions (overlapSize \<lparr>partSize = (8, 4), overlapSize = (6, 0)\<rparr>)
   \<and> (\<exists>ts. get_boxes \<lparr>partSize = (8, 4), overlapSize = (6, 0)\<rparr> (10, 4) (8, 4) (6, 0) False
               = Some (ts, None)
            \<and> two_state_boxes (10, 4) (8, 4) (6, 0) = Some ts)"
proof -
  have a: "accepted \<lparr>partSize = (8, 4), overlapSize = (6, 0)\<rparr> (10, 4)"
    by (simp add: accepted_iff)
  have d: "dimensions (overlapSize \<lparr>partSize = (8, 4), overlapSize = (6, 0)\<rparr>)"
    by (simp add: dimensions_def)
  show ?thesis using a d destructive_trimming_refines_two_state[OF a d] by simp
qed

end
